theory Spec2Isabelle
  imports Main "HOL-Library.Signed_Division"
begin

section \<open>Text, runes and the lexer of the log format\<close>

text \<open>
  The lexer of \<^verbatim>\<open>logger/pattern.go\<close> scans a slice of runes. A rune is a Go
  \<^verbatim>\<open>int32\<close> code point, modelled as an \<^typ>\<open>int\<close>. Go strings are modelled by
  the sequence of their code points, so that the conversions \<^verbatim>\<open>[]rune(format)\<close> and
  \<^verbatim>\<open>string(s[:n])\<close> are the identity (they are mutually inverse on well-formed
  UTF-8 text). A string literal of the source is written \<open>runes ''...''\<close>.
\<close>

type_synonym rune = int
type_synonym gostring = "rune list"

definition runes :: "string \<Rightarrow> gostring" where
  "runes cs = map of_char cs"

datatype itemType = itemText | itemField | itemHeader

datatype state = stateStart | stateText | stateDollar | stateField | stateDot | stateHeader

definition isIDChar :: "rune \<Rightarrow> bool" where
  "isIDChar r \<longleftrightarrow>
     of_char CHR ''a'' \<le> r \<and> r \<le> of_char CHR ''z'' \<or>
     of_char CHR ''A'' \<le> r \<and> r \<le> of_char CHR ''Z'' \<or>
     of_char CHR ''0'' \<le> r \<and> r \<le> of_char CHR ''9'' \<or>
     r = of_char CHR ''_'' \<or> r = of_char CHR ''-''"

text \<open>
  One iteration of \<^verbatim>\<open>for i, r := range s\<close>: the body of the \<^verbatim>\<open>switch state\<close>.
  \<open>Inl (typ, i)\<close> is a \<^verbatim>\<open>return typ, i\<close> from inside the loop, \<open>Inr st\<close> the state
  the next iteration starts in.
\<close>

fun lex_step :: "rune list \<Rightarrow> nat \<Rightarrow> rune \<Rightarrow> state \<Rightarrow> (itemType \<times> int) + state" where
  "lex_step s i r stateStart =
     (if r = of_char CHR ''$'' then Inr stateDollar else Inr stateText)"
| "lex_step s i r stateText =
     (if r = of_char CHR ''$'' then Inl (itemText, int i) else Inr stateText)"
| "lex_step s i r stateDollar =
     (if isIDChar r then Inr stateField else Inr stateText)"
| "lex_step s i r stateField =
     (if r = of_char CHR ''.'' then
        (if take i s = runes ''$header'' then Inr stateDot else Inl (itemField, int i))
      else if isIDChar r then Inr stateField
      else Inl (itemField, int i))"
| "lex_step s i r stateDot =
     (if isIDChar r then Inr stateHeader else Inl (itemField, int i))"
| "lex_step s i r stateHeader =
     (if isIDChar r then Inr stateHeader else Inl (itemHeader, int i))"

text \<open>
  The loop itself, over the runes not yet read: \<open>i\<close> is the index of the next rune in
  \<open>s\<close>. It ends with a return from inside (\<open>Inl\<close>) or, at the end of the input, with
  the state reached (\<open>Inr\<close>).
\<close>

fun lex_loop :: "rune list \<Rightarrow> nat \<Rightarrow> rune list \<Rightarrow> state \<Rightarrow> (itemType \<times> int) + state" where
  "lex_loop s i [] st = Inr st"
| "lex_loop s i (r # rs) st =
     (case lex_step s i r st of
        Inl res \<Rightarrow> Inl res
      | Inr st' \<Rightarrow> lex_loop s (Suc i) rs st')"

text \<open>The \<^verbatim>\<open>switch state\<close> after the loop: the token returned at the end of the input.\<close>

fun lex_final :: "rune list \<Rightarrow> state \<Rightarrow> itemType \<times> int" where
  "lex_final s stateDot = (itemField, int (length s) - 1)"
| "lex_final s stateField = (itemField, int (length s))"
| "lex_final s stateHeader = (itemHeader, int (length s))"
| "lex_final s st = (itemText, int (length s))"

text \<open>
  The function \<^verbatim>\<open>lex\<close>. It is named \<open>lex_go\<close> because \<open>lex\<close> is the lexicographic
  order of HOL's lists.
\<close>

definition lex_go :: "rune list \<Rightarrow> itemType \<times> int" where
  "lex_go s =
     (case lex_loop s 0 s stateStart of
        Inl res \<Rightarrow> res
      | Inr st \<Rightarrow> lex_final s st)"


subsection \<open>What the loop of the lexer maintains\<close>

text \<open>
  \<open>lex_inv s i st\<close>: what is known of the first \<open>i\<close> runes of \<open>s\<close> when the loop is
  about to read rune \<open>i\<close> in state \<open>st\<close>. \<open>lex_res s t n\<close>: what is known of a token
  \<open>(t, n)\<close> returned for a non-empty input \<open>s\<close>.
\<close>

definition lex_inv :: "rune list \<Rightarrow> nat \<Rightarrow> state \<Rightarrow> bool" where
  "lex_inv s i st =
     (case st of
        stateStart \<Rightarrow> i = 0
      | stateText \<Rightarrow> 1 \<le> i
      | stateDollar \<Rightarrow> i = 1 \<and> take 1 s = runes ''$''
      | stateField \<Rightarrow> 2 \<le> i \<and> take 1 s = runes ''$'' \<and> (\<forall>k. 1 \<le> k \<and> k < i \<longrightarrow> isIDChar (s ! k))
      | stateDot \<Rightarrow> i = 8 \<and> take 8 s = runes ''$header.''
      | stateHeader \<Rightarrow> 9 \<le> i \<and> take 8 s = runes ''$header.'' \<and> (\<forall>k. 8 \<le> k \<and> k < i \<longrightarrow> isIDChar (s ! k)))"

definition lex_res :: "rune list \<Rightarrow> itemType \<Rightarrow> int \<Rightarrow> bool" where
  "lex_res s t n =
     (1 \<le> n \<and> n \<le> int (length s) \<and>
      (case t of
         itemText \<Rightarrow> True
       | itemField \<Rightarrow> 2 \<le> n \<and> take 1 s = runes ''$'' \<and> isIDChar (s ! 1) \<and>
           (\<forall>k. 1 \<le> k \<and> k < nat n \<longrightarrow> isIDChar (s ! k) \<or> s ! k = of_char CHR ''.'')
       | itemHeader \<Rightarrow> 9 \<le> n \<and> take 8 s = runes ''$header.'' \<and>
           (\<forall>k. 8 \<le> k \<and> k < nat n \<longrightarrow> isIDChar (s ! k))))"

lemma take_header_length: "take i s = runes ''$header'' \<Longrightarrow> i < length s \<Longrightarrow> i = 7"
  by (drule arg_cong [where f = length]) (simp add: runes_def)

lemma take_header_dot:
  assumes "take i s = runes ''$header''" "i < length s" "s ! i = of_char CHR ''.''"
  shows "i = 7 \<and> take 8 s = runes ''$header.''"
proof -
  have i: "i = 7" using assms(1,2) by (rule take_header_length)
  have "take 8 s = take 7 s @ [s ! 7]"
    using take_Suc_conv_app_nth [of 7 s] assms(2) i by simp
  then show ?thesis using assms i by (simp add: runes_def)
qed

lemma header_prefix_nth:
  assumes "take 8 s = runes ''$header.''" "k < 8"
  shows "s ! k = runes ''$header.'' ! k"
proof -
  have "s ! k = take 8 s ! k" using assms(2) by simp
  then show ?thesis using assms(1) by simp
qed

lemma header_prefix_chars:
  assumes "take 8 s = runes ''$header.''" "1 \<le> k" "k < 8"
  shows "isIDChar (s ! k) \<or> s ! k = of_char CHR ''.''"
proof -
  have "k = 1 \<or> k = 2 \<or> k = 3 \<or> k = 4 \<or> k = 5 \<or> k = 6 \<or> k = 7" using assms(2,3) by arith
  then show ?thesis
    using header_prefix_nth [OF assms(1), of k]
    by (auto simp: runes_def isIDChar_def)
qed

lemma header_prefix_take1: "take 8 s = runes ''$header.'' \<Longrightarrow> take 1 s = runes ''$''"
proof -
  assume a: "take 8 s = runes ''$header.''"
  have "take 1 (take 8 s) = take 1 s" by (simp add: min_def)
  then show ?thesis using a by (simp add: runes_def)
qed

lemma header_prefix_id1:
  assumes "take 8 s = runes ''$header.''"
  shows "isIDChar (s ! Suc 0)"
  using header_prefix_nth [OF assms, of 1] by (simp add: runes_def isIDChar_def)

lemma lex_step_inv:
  assumes "lex_inv s i st" "i < length s"
  shows "case lex_step s i (s ! i) st of
           Inl (t, n) \<Rightarrow> n = int i \<and> lex_res s t n
         | Inr st' \<Rightarrow> lex_inv s (Suc i) st'"
proof (cases st)
  case stateStart
  then show ?thesis using assms
    by (auto simp: lex_inv_def runes_def take_Suc_conv_app_nth)
next
  case stateText
  then show ?thesis using assms by (auto simp: lex_inv_def lex_res_def)
next
  case stateDollar
  then show ?thesis using assms by (auto simp: lex_inv_def less_Suc_eq)
next
  case stateField
  then show ?thesis using assms take_header_dot [of i s]
    by (auto simp: lex_inv_def lex_res_def less_Suc_eq)
next
  case stateDot
  have k8: "\<And>k::nat. 8 \<le> k \<Longrightarrow> k < 9 \<Longrightarrow> k = 8" by arith
  from stateDot show ?thesis
    using assms header_prefix_chars [of s] header_prefix_take1 [of s] header_prefix_id1 [of s]
    by (auto simp: lex_inv_def lex_res_def dest: k8)
next
  case stateHeader
  then show ?thesis using assms by (auto simp: lex_inv_def lex_res_def less_Suc_eq)
qed

lemma lex_loop_inv:
  "lex_inv (pre @ rest @ post) (length pre) st \<Longrightarrow>
   (\<forall>t n. lex_loop (pre @ rest @ post) (length pre) rest st = Inl (t, n) \<longrightarrow>
      lex_res (pre @ rest @ post) t n) \<and>
   (\<forall>st'. lex_loop (pre @ rest @ post) (length pre) rest st = Inr st' \<longrightarrow>
      lex_inv (pre @ rest @ post) (length pre + length rest) st')"
proof (induction rest arbitrary: pre st)
  case Nil
  then show ?case by simp
next
  case (Cons r rs)
  let ?s = "pre @ (r # rs) @ post"
  have step: "case lex_step ?s (length pre) (?s ! length pre) st of
           Inl (t, n) \<Rightarrow> n = int (length pre) \<and> lex_res ?s t n
         | Inr st' \<Rightarrow> lex_inv ?s (Suc (length pre)) st'"
    using Cons.prems by (intro lex_step_inv) simp_all
  have nth: "?s ! length pre = r" by simp
  show ?case
  proof (cases "lex_step ?s (length pre) r st")
    case (Inl res)
    then show ?thesis using step nth by (auto split: prod.splits)
  next
    case (Inr st')
    have "lex_inv ((pre @ [r]) @ rs @ post) (length (pre @ [r])) st'"
      using step Inr nth by simp
    from Cons.IH [OF this] show ?thesis using Inr by simp
  qed
qed

lemma lex_final_res:
  assumes "lex_inv s (length s) st" "s \<noteq> []"
  shows "case lex_final s st of (t, n) \<Rightarrow> lex_res s t n"
proof (cases st)
  case stateDot
  then show ?thesis
    using assms header_prefix_chars [of s] header_prefix_take1 [of s] header_prefix_id1 [of s]
    by (auto simp: lex_inv_def lex_res_def)
qed (use assms in \<open>auto simp: lex_inv_def lex_res_def\<close>)

lemma lex_go_res:
  assumes "s \<noteq> []" "lex_go s = (t, n)"
  shows "lex_res s t n"
proof -
  have inv0: "lex_inv ([] @ s @ []) (length ([] :: rune list)) stateStart"
    by (simp add: lex_inv_def)
  from lex_loop_inv [OF inv0]
  have loop: "(\<forall>t n. lex_loop s 0 s stateStart = Inl (t, n) \<longrightarrow> lex_res s t n) \<and>
    (\<forall>st'. lex_loop s 0 s stateStart = Inr st' \<longrightarrow> lex_inv s (length s) st')" by simp
  show ?thesis
  proof (cases "lex_loop s 0 s stateStart")
    case (Inl res)
    then show ?thesis using loop assms(2) by (simp add: lex_go_def)
  next
    case (Inr st')
    then have "lex_inv s (length s) st'" using loop by simp
    from lex_final_res [OF this assms(1)] show ?thesis
      using Inr assms(2) by (simp add: lex_go_def)
  qed
qed

section \<open>Requests, responses, timestamps and the output buffer\<close>

text \<open>
  The collaborators of the renderers, reduced to what the renderers read. A Go pointer
  that may be \<^verbatim>\<open>nil\<close> is an \<open>option\<close>; reading through a \<^verbatim>\<open>nil\<close> pointer, slicing
  out of range and indexing out of range are run-time panics and appear as errors.
  \<open>HeaderGet\<close> stands for \<^verbatim>\<open>r.Header.Get\<close>. An \<^verbatim>\<open>int64\<close> is modelled by the integer
  it denotes; none of the renderers' own operations (division and remainder by a positive
  constant) can leave the 64-bit range.
\<close>

datatype error = InvalidField gostring | SliceOutOfRange | IndexOutOfRange | NilDereference

type_synonym int64 = int

record url =
  RawQuery :: gostring

record request =
  Method :: gostring
  RequestURI :: gostring
  Proto :: gostring
  Host :: gostring
  RemoteAddr :: gostring
  URL :: "url option"
  HeaderGet :: "gostring \<Rightarrow> gostring"

record response =
  StatusCode :: int
  ContentLength :: int64
  Request :: "request option"

text \<open>A \<^verbatim>\<open>time.Time\<close>, as seen through the accessor methods the renderers call.\<close>

record time =
  Year :: int
  Month :: int
  Day :: int
  Hour :: int
  Minute :: int
  Second :: int
  Nanosecond :: int
  UnixNano :: int64

text \<open>
  The two calls into Go's standard library that take more than the receiver's fields:
  \<open>Sub L t2 t1\<close> is \<^verbatim>\<open>t2.Sub(t1).Nanoseconds()\<close> and \<open>SplitHostPort L a\<close> is
  \<^verbatim>\<open>net.SplitHostPort(a)\<close>, returning host, port and whether the error is non-nil.
\<close>

record golib =
  Sub :: "time \<Rightarrow> time \<Rightarrow> int64"
  SplitHostPort :: "gostring \<Rightarrow> gostring \<times> gostring \<times> bool"

type_synonym buffer = "rune list"

definition WriteString :: "buffer \<Rightarrow> gostring \<Rightarrow> buffer" where
  "WriteString b s = b @ s"

definition WriteRune :: "buffer \<Rightarrow> rune \<Rightarrow> buffer" where
  "WriteRune b r = b @ [r]"

type_synonym field =
  "buffer \<Rightarrow> time \<Rightarrow> time \<Rightarrow> response option \<Rightarrow> request option \<Rightarrow> error + buffer"

type_synonym pattern = "field list"

section \<open>The pattern executor\<close>

text \<open>The \<^verbatim>\<open>for _, fn := range p\<close> loop of \<^verbatim>\<open>pattern.write\<close>; a panic ends the call.\<close>

fun run_fields ::
  "pattern \<Rightarrow> buffer \<Rightarrow> time \<Rightarrow> time \<Rightarrow> response option \<Rightarrow> request option \<Rightarrow> error + buffer" where
  "run_fields [] b t1 t2 w r = Inr b"
| "run_fields (fn # p) b t1 t2 w r =
     (case fn b t1 t2 w r of
        Inl e \<Rightarrow> Inl e
      | Inr b' \<Rightarrow> run_fields p b' t1 t2 w r)"

text \<open>
  The method \<^verbatim>\<open>pattern.write\<close>: \<^verbatim>\<open>b.Len() == 0\<close> tests the whole buffer, whatever it
  held before the call.
\<close>

definition pattern_write ::
  "pattern \<Rightarrow> buffer \<Rightarrow> time \<Rightarrow> time \<Rightarrow> response option \<Rightarrow> request option \<Rightarrow> error + buffer" where
  "pattern_write p b t1 t2 w r =
     (case run_fields p b t1 t2 w r of
        Inl e \<Rightarrow> Inl e
      | Inr b' \<Rightarrow> if length b' = 0 then Inr b' else Inr (WriteRune b' (of_char CHR 0x0A)))"

section \<open>The pattern compiler\<close>

definition text_field :: "gostring \<Rightarrow> field" where
  "text_field s = (\<lambda>b _ _ _ _. Inr (WriteString b s))"

definition header_field :: "gostring \<Rightarrow> field" where
  "header_field name =
     (\<lambda>b _ _ _ r. case r of
        None \<Rightarrow> Inl NilDereference
      | Some rq \<Rightarrow> Inr (WriteString b (HeaderGet rq name)))"

text \<open>The slices \<^verbatim>\<open>s[:n]\<close> and \<^verbatim>\<open>s[n:]\<close>, which panic unless \<open>0 \<le> n \<le> len(s)\<close>.\<close>

definition slice_to :: "'a list \<Rightarrow> int \<Rightarrow> error + 'a list" where
  "slice_to s n = (if 0 \<le> n \<and> n \<le> int (length s) then Inr (take (nat n) s) else Inl SliceOutOfRange)"

definition slice_from :: "'a list \<Rightarrow> int \<Rightarrow> error + 'a list" where
  "slice_from s n = (if 0 \<le> n \<and> n \<le> int (length s) then Inr (drop (nat n) s) else Inl SliceOutOfRange)"

text \<open>
  The loop of \<^verbatim>\<open>parse\<close>. Nothing in the loop bounds the number of iterations, so the
  model may fail to return (\<open>None\<close>); \<open>Some (Inl e)\<close> is the error return or a panic,
  \<open>Some (Inr p)\<close> the compiled pattern. A key that is absent from the table, or bound to
  \<^verbatim>\<open>nil\<close>, is a key the map \<open>tbl\<close> (the parameter \<^verbatim>\<open>fields\<close>) does not define.
\<close>

partial_function (option) parse_loop ::
  "rune list \<Rightarrow> (gostring \<rightharpoonup> field) \<Rightarrow> pattern \<Rightarrow> (error + pattern) option" where
  "parse_loop s tbl p =
     (if length s = 0 then Some (Inr p)
      else
        (case lex_go s of (typ, n) \<Rightarrow>
          (case slice_to s n of
             Inl e \<Rightarrow> Some (Inl e)
           | Inr val \<Rightarrow>
              (case slice_from s n of
                 Inl e \<Rightarrow> Some (Inl e)
               | Inr s' \<Rightarrow>
                  (case typ of
                     itemText \<Rightarrow> parse_loop s' tbl (p @ [text_field val])
                   | itemHeader \<Rightarrow>
                      (case slice_from val (int (length (runes ''$header.''))) of
                         Inl e \<Rightarrow> Some (Inl e)
                       | Inr name \<Rightarrow> parse_loop s' tbl (p @ [header_field name]))
                   | itemField \<Rightarrow>
                      (case tbl val of
                         None \<Rightarrow> Some (Inl (InvalidField val))
                       | Some f \<Rightarrow> parse_loop s' tbl (p @ [f])))))))"

definition parse :: "gostring \<Rightarrow> (gostring \<rightharpoonup> field) \<Rightarrow> (error + pattern) option" where
  "parse format tbl = parse_loop format tbl []"

section \<open>The numeric formatter\<close>

text \<open>
  Modelled from the spec: the numeric formatter \<^verbatim>\<open>atoi(b, i, pad)\<close>. Its source file is
  not among the sources; only its callers (the renderers below) and its test
  \<^verbatim>\<open>TestAtoi\<close> are. The model follows section 4.1 of the specification: the decimal
  digits of the magnitude are generated least significant digit first and copied in
  reverse; a negative value gets a leading \<open>-\<close>; the digits are padded with \<open>0\<close> on the left
  up to \<open>minWidth\<close> digits, the sign not counted.
\<close>

fun digits_lsd :: "nat \<Rightarrow> rune list" where
  "digits_lsd m =
     (if m < 10 then [of_char CHR ''0'' + int m]
      else (of_char CHR ''0'' + int (m mod 10)) # digits_lsd (m div 10))"

declare digits_lsd.simps [simp del]

text \<open>
  Modelled from the spec: \<^verbatim>\<open>atoi\<close> itself (section 4.1), appending sign, padding and
  digits to the buffer.
\<close>

definition atoi :: "buffer \<Rightarrow> int64 \<Rightarrow> int \<Rightarrow> buffer" where
  "atoi b i pad =
     (let ds = rev (digits_lsd (nat \<bar>i\<bar>));
          sign = (if i < 0 then runes ''-'' else []);
          zeros = replicate (nat pad - length ds) (of_char CHR ''0'')
      in WriteString b (sign @ zeros @ ds))"

text \<open>The value a string of decimal digits denotes, and what a decimal digit is.\<close>

definition is_digit :: "rune \<Rightarrow> bool" where
  "is_digit c \<longleftrightarrow> of_char CHR ''0'' \<le> c \<and> c \<le> of_char CHR ''9''"

definition dec_value :: "rune list \<Rightarrow> nat" where
  "dec_value ds = foldl (\<lambda>a c. 10 * a + nat (c - of_char CHR ''0'')) 0 ds"

section \<open>The table of field renderers\<close>

text \<open>
  The durations \<^verbatim>\<open>time.Second\<close>, \<^verbatim>\<open>time.Millisecond\<close>, \<^verbatim>\<open>time.Microsecond\<close> and
  \<^verbatim>\<open>time.Nanosecond\<close> in nanoseconds. Go's \<^verbatim>\<open>/\<close> and \<^verbatim>\<open>%\<close> on integers truncate
  towards zero: they are \<open>sdiv\<close> and \<open>smod\<close>.
\<close>

definition time_Second :: int64 where "time_Second = 1000000000"
definition time_Millisecond :: int64 where "time_Millisecond = 1000000"
definition time_Microsecond :: int64 where "time_Microsecond = 1000"
definition time_Nanosecond :: int64 where "time_Nanosecond = 1"

definition shortMonthNames :: "gostring list" where
  "shortMonthNames =
     [runes ''---'', runes ''Jan'', runes ''Feb'', runes ''Mar'', runes ''Apr'', runes ''May'',
      runes ''Jun'', runes ''Jul'', runes ''Aug'', runes ''Sep'', runes ''Oct'', runes ''Nov'',
      runes ''Dec'']"

text \<open>
  The renderers of the map literal \<^verbatim>\<open>fields\<close>, each named after its key. The source
  writes them as closures over nothing but their parameters.
\<close>

definition field_remote_addr :: field where
  "field_remote_addr b t1 t2 w r =
     (case r of None \<Rightarrow> Inl NilDereference
      | Some rq \<Rightarrow> Inr (WriteString b (RemoteAddr rq)))"

definition field_remote_host :: "golib \<Rightarrow> field" where
  "field_remote_host L b t1 t2 w r =
     (case r of None \<Rightarrow> Inl NilDereference
      | Some rq \<Rightarrow>
         (case SplitHostPort L (RemoteAddr rq) of (host, _, _) \<Rightarrow> Inr (WriteString b host)))"

definition field_remote_port :: "golib \<Rightarrow> field" where
  "field_remote_port L b t1 t2 w r =
     (case r of None \<Rightarrow> Inl NilDereference
      | Some rq \<Rightarrow>
         (case SplitHostPort L (RemoteAddr rq) of (_, port, _) \<Rightarrow> Inr (WriteString b port)))"

definition field_request :: field where
  "field_request b t1 t2 w r =
     (case r of None \<Rightarrow> Inl NilDereference
      | Some rq \<Rightarrow>
         (let b1 = WriteString b (Method rq);
              b2 = WriteRune b1 (of_char CHR '' '');
              b3 = WriteString b2 (RequestURI rq);
              b4 = WriteRune b3 (of_char CHR '' '');
              b5 = WriteString b4 (Proto rq)
          in Inr b5))"

definition field_request_args :: field where
  "field_request_args b t1 t2 w r =
     (case r of None \<Rightarrow> Inl NilDereference
      | Some rq \<Rightarrow>
         (case URL rq of None \<Rightarrow> Inl NilDereference
          | Some u \<Rightarrow> Inr (WriteString b (RawQuery u))))"

definition field_request_host :: field where
  "field_request_host b t1 t2 w r =
     (case r of None \<Rightarrow> Inl NilDereference
      | Some rq \<Rightarrow> Inr (WriteString b (Host rq)))"

definition field_request_method :: field where
  "field_request_method b t1 t2 w r =
     (case r of None \<Rightarrow> Inl NilDereference
      | Some rq \<Rightarrow> Inr (WriteString b (Method rq)))"

definition field_request_uri :: field where
  "field_request_uri b t1 t2 w r =
     (case r of None \<Rightarrow> Inl NilDereference
      | Some rq \<Rightarrow> Inr (WriteString b (RequestURI rq)))"

definition field_request_proto :: field where
  "field_request_proto b t1 t2 w r =
     (case r of None \<Rightarrow> Inl NilDereference
      | Some rq \<Rightarrow> Inr (WriteString b (Proto rq)))"

definition field_response_body_size :: field where
  "field_response_body_size b t1 t2 w r =
     (case w of None \<Rightarrow> Inl NilDereference
      | Some rs \<Rightarrow> Inr (atoi b (ContentLength rs) 0))"

definition field_response_status :: field where
  "field_response_status b t1 t2 w r =
     (case w of None \<Rightarrow> Inl NilDereference
      | Some rs \<Rightarrow> Inr (atoi b (StatusCode rs) 0))"

definition field_response_time_ms :: "golib \<Rightarrow> field" where
  "field_response_time_ms L b t1 t2 w r =
     (let d = Sub L t2 t1;
          s = d sdiv time_Second;
          us = (d smod time_Second) sdiv time_Millisecond;
          b1 = atoi b s 0;
          b2 = WriteRune b1 (of_char CHR ''.'');
          b3 = atoi b2 us 3
      in Inr b3)"

definition field_response_time_us :: "golib \<Rightarrow> field" where
  "field_response_time_us L b t1 t2 w r =
     (let d = Sub L t2 t1;
          s = d sdiv time_Second;
          us = (d smod time_Second) sdiv time_Microsecond;
          b1 = atoi b s 0;
          b2 = WriteRune b1 (of_char CHR ''.'');
          b3 = atoi b2 us 6
      in Inr b3)"

definition field_response_time_ns :: "golib \<Rightarrow> field" where
  "field_response_time_ns L b t1 t2 w r =
     (let d = Sub L t2 t1;
          s = d sdiv time_Second;
          ns = (d smod time_Second) sdiv time_Nanosecond;
          b1 = atoi b s 0;
          b2 = WriteRune b1 (of_char CHR ''.'');
          b3 = atoi b2 ns 9
      in Inr b3)"

definition field_time_unix_ms :: field where
  "field_time_unix_ms b t1 t2 w r = Inr (atoi b (UnixNano t2 sdiv time_Millisecond) 0)"

definition field_time_unix_us :: field where
  "field_time_unix_us b t1 t2 w r = Inr (atoi b (UnixNano t2 sdiv time_Microsecond) 0)"

definition field_time_unix_ns :: field where
  "field_time_unix_ns b t1 t2 w r = Inr (atoi b (UnixNano t2) 0)"

definition field_time_common :: field where
  "field_time_common b t1 t2 w r =
     (let b1 = atoi b (Day t2) 2;
          b2 = WriteRune b1 (of_char CHR ''/'')
      in if 0 \<le> Month t2 \<and> Month t2 < int (length shortMonthNames) then
           (let b3 = WriteString b2 (shortMonthNames ! nat (Month t2));
                b4 = WriteRune b3 (of_char CHR ''/'');
                b5 = atoi b4 (Year t2) 4;
                b6 = WriteRune b5 (of_char CHR '':'');
                b7 = atoi b6 (Hour t2) 2;
                b8 = WriteRune b7 (of_char CHR '':'');
                b9 = atoi b8 (Minute t2) 2;
                b10 = WriteRune b9 (of_char CHR '':'');
                b11 = atoi b10 (Second t2) 2;
                b12 = WriteString b11 (runes '' +0000'')
            in Inr b12)
         else Inl IndexOutOfRange)"

definition field_time_rfc3339 :: field where
  "field_time_rfc3339 b t1 t2 w r =
     (let b1 = atoi b (Year t2) 4;
        b2 = WriteRune b1 (of_char CHR ''-'');
        b3 = atoi b2 (Month t2) 2;
        b4 = WriteRune b3 (of_char CHR ''-'');
        b5 = atoi b4 (Day t2) 2;
        b6 = WriteRune b5 (of_char CHR ''T'');
        b7 = atoi b6 (Hour t2) 2;
        b8 = WriteRune b7 (of_char CHR '':'');
        b9 = atoi b8 (Minute t2) 2;
        b10 = WriteRune b9 (of_char CHR '':'');
        b11 = atoi b10 (Second t2) 2;
        b12 = WriteRune b11 (of_char CHR ''Z'')
      in Inr b12)"

definition field_time_rfc3339_ms :: field where
  "field_time_rfc3339_ms b t1 t2 w r =
     (let b1 = atoi b (Year t2) 4;
        b2 = WriteRune b1 (of_char CHR ''-'');
        b3 = atoi b2 (Month t2) 2;
        b4 = WriteRune b3 (of_char CHR ''-'');
        b5 = atoi b4 (Day t2) 2;
        b6 = WriteRune b5 (of_char CHR ''T'');
        b7 = atoi b6 (Hour t2) 2;
        b8 = WriteRune b7 (of_char CHR '':'');
        b9 = atoi b8 (Minute t2) 2;
        b10 = WriteRune b9 (of_char CHR '':'');
        b11 = atoi b10 (Second t2) 2;
        b12 = WriteRune b11 (of_char CHR ''.'');
        b13 = atoi b12 (Nanosecond t2 sdiv time_Millisecond) 3;
        b14 = WriteRune b13 (of_char CHR ''Z'')
      in Inr b14)"

definition field_time_rfc3339_us :: field where
  "field_time_rfc3339_us b t1 t2 w r =
     (let b1 = atoi b (Year t2) 4;
        b2 = WriteRune b1 (of_char CHR ''-'');
        b3 = atoi b2 (Month t2) 2;
        b4 = WriteRune b3 (of_char CHR ''-'');
        b5 = atoi b4 (Day t2) 2;
        b6 = WriteRune b5 (of_char CHR ''T'');
        b7 = atoi b6 (Hour t2) 2;
        b8 = WriteRune b7 (of_char CHR '':'');
        b9 = atoi b8 (Minute t2) 2;
        b10 = WriteRune b9 (of_char CHR '':'');
        b11 = atoi b10 (Second t2) 2;
        b12 = WriteRune b11 (of_char CHR ''.'');
        b13 = atoi b12 (Nanosecond t2 sdiv time_Microsecond) 6;
        b14 = WriteRune b13 (of_char CHR ''Z'')
      in Inr b14)"

definition field_time_rfc3339_ns :: field where
  "field_time_rfc3339_ns b t1 t2 w r =
     (let b1 = atoi b (Year t2) 4;
        b2 = WriteRune b1 (of_char CHR ''-'');
        b3 = atoi b2 (Month t2) 2;
        b4 = WriteRune b3 (of_char CHR ''-'');
        b5 = atoi b4 (Day t2) 2;
        b6 = WriteRune b5 (of_char CHR ''T'');
        b7 = atoi b6 (Hour t2) 2;
        b8 = WriteRune b7 (of_char CHR '':'');
        b9 = atoi b8 (Minute t2) 2;
        b10 = WriteRune b9 (of_char CHR '':'');
        b11 = atoi b10 (Second t2) 2;
        b12 = WriteRune b11 (of_char CHR ''.'');
        b13 = atoi b12 (Nanosecond t2) 9;
        b14 = WriteRune b13 (of_char CHR ''Z'')
      in Inr b14)"

definition field_upstream_addr :: field where
  "field_upstream_addr b t1 t2 w r =
     (case w of None \<Rightarrow> Inl NilDereference
      | Some rs \<Rightarrow>
         (case Request rs of None \<Rightarrow> Inl NilDereference
          | Some rq \<Rightarrow> Inr (WriteString b (RemoteAddr rq))))"

definition field_upstream_host :: "golib \<Rightarrow> field" where
  "field_upstream_host L b t1 t2 w r =
     (case w of None \<Rightarrow> Inl NilDereference
      | Some rs \<Rightarrow>
         (case Request rs of None \<Rightarrow> Inl NilDereference
          | Some rq \<Rightarrow>
             (case SplitHostPort L (RemoteAddr rq) of (host, _, _) \<Rightarrow> Inr (WriteString b host))))"

definition field_upstream_port :: "golib \<Rightarrow> field" where
  "field_upstream_port L b t1 t2 w r =
     (case w of None \<Rightarrow> Inl NilDereference
      | Some rs \<Rightarrow>
         (case Request rs of None \<Rightarrow> Inl NilDereference
          | Some rq \<Rightarrow>
             (case SplitHostPort L (RemoteAddr rq) of (_, port, _) \<Rightarrow> Inr (WriteString b port))))"

text \<open>The map literal \<^verbatim>\<open>fields\<close>; its keys are distinct.\<close>

definition fields :: "golib \<Rightarrow> (gostring \<rightharpoonup> field)" where
  "fields L = map_of
     [(runes ''$remote_addr'', field_remote_addr),
      (runes ''$remote_host'', field_remote_host L),
      (runes ''$remote_port'', field_remote_port L),
      (runes ''$request'', field_request),
      (runes ''$request_args'', field_request_args),
      (runes ''$request_host'', field_request_host),
      (runes ''$request_method'', field_request_method),
      (runes ''$request_uri'', field_request_uri),
      (runes ''$request_proto'', field_request_proto),
      (runes ''$response_body_size'', field_response_body_size),
      (runes ''$response_status'', field_response_status),
      (runes ''$response_time_ms'', field_response_time_ms L),
      (runes ''$response_time_us'', field_response_time_us L),
      (runes ''$response_time_ns'', field_response_time_ns L),
      (runes ''$time_unix_ms'', field_time_unix_ms),
      (runes ''$time_unix_us'', field_time_unix_us),
      (runes ''$time_unix_ns'', field_time_unix_ns),
      (runes ''$time_common'', field_time_common),
      (runes ''$time_rfc3339'', field_time_rfc3339),
      (runes ''$time_rfc3339_ms'', field_time_rfc3339_ms),
      (runes ''$time_rfc3339_us'', field_time_rfc3339_us),
      (runes ''$time_rfc3339_ns'', field_time_rfc3339_ns),
      (runes ''$upstream_addr'', field_upstream_addr),
      (runes ''$upstream_host'', field_upstream_host L),
      (runes ''$upstream_port'', field_upstream_port L)]"

section \<open>The tokens of a format string and the result of the compiler\<close>

lemma lex_go_bounds:
  assumes "s \<noteq> []" "lex_go s = (t, n)"
  shows "1 \<le> n \<and> n \<le> int (length s)"
  using lex_go_res [OF assms] by (simp add: lex_res_def)

text \<open>
  The tokens of a format string, as the loop of \<^verbatim>\<open>parse\<close> meets them: the lexer is
  run on what is left of the input and the input advances past the token. The recursion
  ends because a token of a non-empty input is never empty (\<open>lex_go_bounds\<close>).
\<close>

function tokens :: "rune list \<Rightarrow> (itemType \<times> gostring) list" where
  "tokens s =
     (if length s = 0 then []
      else (case lex_go s of (typ, n) \<Rightarrow> (typ, take (nat n) s) # tokens (drop (nat n) s)))"
  by pat_completeness auto
termination
proof (relation "measure length", goal_cases)
  case 1
  show ?case by simp
next
  case (2 s ty n)
  have "lex_go s = (ty, n)" using 2 by simp
  moreover have "s \<noteq> []" using 2 by simp
  ultimately have "1 \<le> n \<and> n \<le> int (length s)" by (rule lex_go_bounds [rotated])
  then show ?case using \<open>s \<noteq> []\<close> by simp
qed

declare tokens.simps [simp del]

lemma tokens_Nil: "tokens [] = []"
  by (simp add: tokens.simps [of "[]"])

lemma parse_loop_Nil: "parse_loop [] tbl p = Some (Inr p)"
  by (simp add: parse_loop.simps [of "[]"])

text \<open>
  A token that stops the compilation, and the renderer a token compiles to otherwise.
\<close>

definition unknown_field :: "(gostring \<rightharpoonup> field) \<Rightarrow> itemType \<times> gostring \<Rightarrow> bool" where
  "unknown_field tbl tok = (fst tok = itemField \<and> tbl (snd tok) = None)"

definition compile_token :: "(gostring \<rightharpoonup> field) \<Rightarrow> itemType \<times> gostring \<Rightarrow> field" where
  "compile_token tbl tok =
     (case fst tok of
        itemText \<Rightarrow> text_field (snd tok)
      | itemHeader \<Rightarrow> header_field (drop 8 (snd tok))
      | itemField \<Rightarrow> the (tbl (snd tok)))"

lemma unknown_field_simp [simp]:
  "unknown_field tbl (t, v) \<longleftrightarrow> t = itemField \<and> tbl v = None"
  by (simp add: unknown_field_def)

lemma compile_token_simps [simp]:
  "compile_token tbl (itemText, v) = text_field v"
  "compile_token tbl (itemHeader, v) = header_field (drop 8 v)"
  "compile_token tbl (itemField, v) = the (tbl v)"
  by (simp_all add: compile_token_def)

lemma parse_loop_tokens:
  "parse_loop s tbl p =
     Some (case find (unknown_field tbl) (tokens s) of
             Some tok \<Rightarrow> Inl (InvalidField (snd tok))
           | None \<Rightarrow> Inr (p @ map (compile_token tbl) (tokens s)))"
proof (induction s arbitrary: p rule: tokens.induct)
  case (1 s)
  show ?case
  proof (cases "length s = 0")
    case True
    then show ?thesis by (simp add: parse_loop_Nil tokens_Nil)
  next
    case False
    obtain ty n where ln: "lex_go s = (ty, n)" by (cases "lex_go s")
    from False have ne: "s \<noteq> []" by simp
    have res: "lex_res s ty n" using lex_go_res [OF ne ln] .
    then have b: "1 \<le> n" "n \<le> int (length s)" by (simp_all add: lex_res_def)
    have IH: "\<And>p. parse_loop (drop (nat n) s) tbl p =
       Some (case find (unknown_field tbl) (tokens (drop (nat n) s)) of
             Some tok \<Rightarrow> Inl (InvalidField (snd tok))
           | None \<Rightarrow> Inr (p @ map (compile_token tbl) (tokens (drop (nat n) s))))"
      using "1.IH" [OF False ln [symmetric]] .
    have toks: "tokens s = (ty, take (nat n) s) # tokens (drop (nat n) s)"
      using False ln by (simp add: tokens.simps [of s])
    let ?val = "take (nat n) s" and ?s' = "drop (nat n) s"
    have unfold: "parse_loop s tbl p =
       (case ty of
          itemText \<Rightarrow> parse_loop ?s' tbl (p @ [text_field ?val])
        | itemHeader \<Rightarrow>
           (case slice_from ?val (int (length (runes ''$header.''))) of
              Inl e \<Rightarrow> Some (Inl e)
            | Inr name \<Rightarrow> parse_loop ?s' tbl (p @ [header_field name]))
        | itemField \<Rightarrow>
           (case tbl ?val of
              None \<Rightarrow> Some (Inl (InvalidField ?val))
            | Some f \<Rightarrow> parse_loop ?s' tbl (p @ [f])))"
      using False ln b
      by (subst parse_loop.simps) (simp add: slice_to_def slice_from_def)
    show ?thesis
    proof (cases ty)
      case itemText
      then show ?thesis by (simp add: unfold toks IH split: option.split)
    next
      case itemField
      then show ?thesis by (cases "tbl ?val") (simp_all add: unfold toks IH split: option.split)
    next
      case itemHeader
      then have "9 \<le> n" using res by (simp add: lex_res_def)
      then have "slice_from ?val (int (length (runes ''$header.''))) = Inr (drop 8 ?val)"
        using b by (simp add: slice_from_def runes_def)
      then show ?thesis using itemHeader by (simp add: unfold toks IH split: option.split)
    qed
  qed
qed

lemma concat_tokens: "concat (map snd (tokens s)) = s"
proof (induction s rule: tokens.induct)
  case (1 s)
  show ?case
  proof (cases "length s = 0")
    case True
    then show ?thesis by (simp add: tokens_Nil)
  next
    case False
    obtain ty n where ln: "lex_go s = (ty, n)" by (cases "lex_go s")
    from "1.IH" [OF False ln [symmetric]] show ?thesis
      using False ln by (simp add: tokens.simps [of s])
  qed
qed

section \<open>The lexer: progress, the Dot state, literal dollars and header tokens\<close>

lemma lex_go_Nil: "lex_go [] = (itemText, 0)"
  by (simp add: lex_go_def)

lemma lex_loop_append:
  "lex_loop s i (xs @ ys) st =
     (case lex_loop s i xs st of
        Inl res \<Rightarrow> Inl res
      | Inr st' \<Rightarrow> lex_loop s (i + length xs) ys st')"
  by (induction xs arbitrary: i st) (auto split: sum.splits)

text \<open>
  \<open>lex_state s k\<close> is the outcome of the first \<open>k\<close> iterations of the loop of the lexer on
  \<open>s\<close>: the state in which rune \<open>k\<close> is read, or the token returned before that.
\<close>

definition lex_state :: "rune list \<Rightarrow> nat \<Rightarrow> (itemType \<times> int) + state" where
  "lex_state s k = lex_loop s 0 (take k s) stateStart"

lemma lex_state_inv:
  assumes "k \<le> length s" "lex_state s k = Inr st"
  shows "lex_inv s k st"
proof -
  have "lex_inv ([] @ take k s @ drop k s) (length ([] :: rune list)) stateStart"
    by (simp add: lex_inv_def)
  from lex_loop_inv [OF this] show ?thesis
    using assms by (auto simp: lex_state_def min_def split: if_splits)
qed

lemma lex_go_from_state:
  assumes "lex_state s k = Inr st"
  shows "lex_go s = (case lex_loop s k (drop k s) st of
                       Inl res \<Rightarrow> res
                     | Inr st' \<Rightarrow> lex_final s st')"
proof (cases "k \<le> length s")
  case True
  then show ?thesis
    using lex_loop_append [of s 0 "take k s" "drop k s" stateStart] assms
    by (simp add: lex_go_def lex_state_def min_def)
next
  case False
  then show ?thesis using assms by (simp add: lex_go_def lex_state_def)
qed

lemma lex_state_Suc:
  assumes "k < length s" "lex_state s k = Inr st"
  shows "lex_state s (Suc k) =
           (case lex_step s k (s ! k) st of Inl res \<Rightarrow> Inl res | Inr st' \<Rightarrow> Inr st')"
proof -
  have "take (Suc k) s = take k s @ [s ! k]" using assms(1) by (rule take_Suc_conv_app_nth)
  then show ?thesis
    using lex_loop_append [of s 0 "take k s" "[s ! k]" stateStart] assms
    by (simp add: lex_state_def min_def split: sum.splits)
qed

text \<open>
  \<open>item_at toks j\<close> is the kind of the token that holds rune \<open>j\<close> of the text the tokens
  \<open>toks\<close> span.
\<close>

fun item_at :: "(itemType \<times> gostring) list \<Rightarrow> nat \<Rightarrow> itemType option" where
  "item_at [] j = None"
| "item_at ((t, v) # toks) j = (if j < length v then Some t else item_at toks (j - length v))"

lemma dollar_not_id: "\<not> isIDChar (of_char CHR ''$'')" "(of_char CHR ''$'' :: int) \<noteq> of_char CHR ''.''"
  by (simp_all add: isIDChar_def)

lemma token_with_literal_dollar:
  assumes res: "lex_res s ty n" and j: "j < nat n" and d: "s ! j = of_char CHR ''$''"
    and nx: "Suc j < length s \<longrightarrow> \<not> isIDChar (s ! Suc j)"
  shows "ty = itemText"
proof (cases ty)
  case itemText
  then show ?thesis .
next
  case itemField
  then have f: "2 \<le> n" "n \<le> int (length s)" "isIDChar (s ! 1)"
    "\<forall>k. 1 \<le> k \<and> k < nat n \<longrightarrow> isIDChar (s ! k) \<or> s ! k = of_char CHR ''.''"
    using res by (simp_all add: lex_res_def)
  show ?thesis
  proof (cases "j = 0")
    case True
    then show ?thesis using f(1,2,3) nx by simp
  next
    case False
    then have "isIDChar (s ! j) \<or> s ! j = of_char CHR ''.''" using f(4) j by simp
    then show ?thesis using d dollar_not_id by simp
  qed
next
  case itemHeader
  then have h: "9 \<le> n" "n \<le> int (length s)" "take 8 s = runes ''$header.''"
    "\<forall>k. 8 \<le> k \<and> k < nat n \<longrightarrow> isIDChar (s ! k)"
    using res by (simp_all add: lex_res_def)
  consider "j = 0" | "1 \<le> j \<and> j < 8" | "8 \<le> j" by arith
  then show ?thesis
  proof cases
    case 1
    then show ?thesis using header_prefix_id1 [OF h(3)] h(1,2) nx by simp
  next
    case 2
    then have "isIDChar (s ! j) \<or> s ! j = of_char CHR ''.''"
      using header_prefix_chars [OF h(3), of j] by simp
    then show ?thesis using d dollar_not_id by simp
  next
    case 3
    then have "isIDChar (s ! j)" using h(4) j by simp
    then show ?thesis using d dollar_not_id by simp
  qed
qed

lemma isIDChar_ascii: "isIDChar c \<Longrightarrow> 0 \<le> c \<and> c < 128"
  by (auto simp: isIDChar_def)

lemma find_first_split:
  "find P xs = Some x \<Longrightarrow> \<exists>pre post. xs = pre @ x # post \<and> P x \<and> (\<forall>y\<in>set pre. \<not> P y)"
proof (induction xs)
  case Nil
  then show ?case by simp
next
  case (Cons a xs)
  show ?case
  proof (cases "P a")
    case True
    then have "a = x" using Cons.prems by simp
    then have "a # xs = [] @ x # xs \<and> P x \<and> (\<forall>y\<in>set []. \<not> P y)" using True by simp
    then show ?thesis by blast
  next
    case False
    then have "find P xs = Some x" using Cons.prems by simp
    from Cons.IH [OF this] obtain pre post where
      "xs = pre @ x # post" "P x" "\<forall>y\<in>set pre. \<not> P y" by blast
    then have "a # xs = (a # pre) @ x # post \<and> P x \<and> (\<forall>y\<in>set (a # pre). \<not> P y)"
      using False by simp
    then show ?thesis by blast
  qed
qed

text \<open>
  Claim C9. For every non-empty input the lexer returns a token length \<open>n\<close> with
  \<open>1 \<le> n \<le> len(s)\<close>. Hence the loop of the compiler returns for every format string and
  every table: with a pattern that holds one renderer for each token of the format string,
  or with an invalid-field error, and never with a slice out of range. The tokens it
  advances past make up the entire format string.
\<close>

theorem lex_progress_parse_terminates:
  "(s \<noteq> [] \<longrightarrow> 1 \<le> snd (lex_go s) \<and> snd (lex_go s) \<le> int (length s)) \<and>
   ((\<exists>p. parse s tbl = Some (Inr p) \<and> length p = length (tokens s)) \<or>
    (\<exists>v. parse s tbl = Some (Inl (InvalidField v)))) \<and>
   concat (map snd (tokens s)) = s"
proof -
  have "s \<noteq> [] \<Longrightarrow> 1 \<le> snd (lex_go s) \<and> snd (lex_go s) \<le> int (length s)"
    using lex_go_bounds [of s "fst (lex_go s)" "snd (lex_go s)"] by simp
  moreover have "(\<exists>p. parse s tbl = Some (Inr p) \<and> length p = length (tokens s)) \<or>
    (\<exists>v. parse s tbl = Some (Inl (InvalidField v)))"
    by (cases "find (unknown_field tbl) (tokens s)") (simp_all add: parse_def parse_loop_tokens)
  ultimately show ?thesis using concat_tokens [of s] by blast
qed

theorem lex_progress_parse_terminates_witness:
  "runes ''$a b'' \<noteq> [] \<and> lex_go (runes ''$a b'') = (itemField, 2) \<and>
   parse (runes ''$a b'') Map.empty = Some (Inl (InvalidField (runes ''$a''))) \<and>
   parse (runes ''$a b'') [runes ''$a'' \<mapsto> text_field (runes ''aa'')] =
     Some (Inr [text_field (runes ''aa''), text_field (runes '' b'')])"
proof -
  have toks: "tokens (runes ''$a b'') = [(itemField, runes ''$a''), (itemText, runes '' b'')]"
    by (simp add: tokens.simps lex_go_def runes_def isIDChar_def)
  have lx: "lex_go (runes ''$a b'') = (itemField, 2)"
    by (simp add: lex_go_def runes_def isIDChar_def)
  have ne: "runes ''$a b'' \<noteq> []" by (simp add: runes_def)
  have p0: "parse (runes ''$a b'') Map.empty = Some (Inl (InvalidField (runes ''$a'')))"
    by (simp add: toks parse_def parse_loop_tokens)
  have p1: "parse (runes ''$a b'') [runes ''$a'' \<mapsto> text_field (runes ''aa'')] =
     Some (Inr [text_field (runes ''aa''), text_field (runes '' b'')])"
    by (simp add: toks parse_def parse_loop_tokens)
  show ?thesis
    using lex_progress_parse_terminates [of "runes ''$a b''" "[runes ''$a'' \<mapsto> text_field (runes ''aa'')]"]
      ne lx p0 p1
    by simp
qed

text \<open>
  Claim C10. A token the lexer classifies as a header token is at least nine runes long,
  lies within the input, starts with the text \<open>$header.\<close> and continues with identifier
  characters only. So the slice \<^verbatim>\<open>val[len("$header."):]\<close> of the compiler is in bounds
  and the header name is not empty. Every rune of the token is an ASCII character, so the
  eight bytes the source strips are the eight runes stripped here.
\<close>

theorem header_token_shape:
  assumes "lex_go s = (itemHeader, n)"
  shows "9 \<le> n \<and> n \<le> int (length s) \<and>
         take 8 (take (nat n) s) = runes ''$header.'' \<and>
         slice_from (take (nat n) s) (int (length (runes ''$header.''))) =
           Inr (drop 8 (take (nat n) s)) \<and>
         drop 8 (take (nat n) s) \<noteq> [] \<and>
         list_all isIDChar (drop 8 (take (nat n) s)) \<and>
         list_all (\<lambda>c. 0 \<le> c \<and> c < 128) (take (nat n) s)"
proof -
  have ne: "s \<noteq> []" using assms by (auto simp: lex_go_Nil)
  from lex_go_res [OF ne assms]
  have r: "1 \<le> n" "n \<le> int (length s)" "9 \<le> n" "take 8 s = runes ''$header.''"
    "\<forall>k. 8 \<le> k \<and> k < nat n \<longrightarrow> isIDChar (s ! k)"
    by (simp_all add: lex_res_def)
  have n8: "8 \<le> nat n" using r(3) by linarith
  have t8: "take 8 (take (nat n) s) = runes ''$header.''"
    using r(4) n8 by (simp add: min_def)
  have sl: "slice_from (take (nat n) s) (int (length (runes ''$header.''))) =
           Inr (drop 8 (take (nat n) s))"
    using r(2,3) by (simp add: slice_from_def runes_def)
  have nonempty: "drop 8 (take (nat n) s) \<noteq> []" using r(2,3) by simp
  have "\<forall>j < length (drop 8 (take (nat n) s)). isIDChar (drop 8 (take (nat n) s) ! j)"
  proof (intro allI impI)
    fix j assume "j < length (drop 8 (take (nat n) s))"
    then have j: "8 + j < nat n" using r(2) by simp
    then have "drop 8 (take (nat n) s) ! j = s ! (8 + j)" using r(2) by simp
    then show "isIDChar (drop 8 (take (nat n) s) ! j)" using r(5) j by simp
  qed
  then have ids: "list_all isIDChar (drop 8 (take (nat n) s))"
    unfolding list_all_length by simp
  have "list_all (\<lambda>c. 0 \<le> c \<and> c < 128) (take 8 (take (nat n) s))"
    unfolding t8 by (simp add: runes_def)
  moreover have "list_all (\<lambda>c. 0 \<le> c \<and> c < 128) (drop 8 (take (nat n) s))"
    using ids isIDChar_ascii by (auto simp: list_all_iff)
  ultimately have "list_all (\<lambda>c. 0 \<le> c \<and> c < 128)
      (take 8 (take (nat n) s) @ drop 8 (take (nat n) s))"
    by (simp only: list_all_append)
  then have ascii: "list_all (\<lambda>c. 0 \<le> c \<and> c < 128) (take (nat n) s)"
    by (simp only: append_take_drop_id)
  show ?thesis using r(2,3) t8 sl nonempty ids ascii by simp
qed

theorem header_token_shape_witness:
  "lex_go (runes ''$header.X-Y z'') = (itemHeader, 11) \<and>
   slice_from (take 11 (runes ''$header.X-Y z'')) (int (length (runes ''$header.''))) =
     Inr (runes ''X-Y'') \<and>
   list_all (\<lambda>c. 0 \<le> c \<and> c < 128) (take 11 (runes ''$header.X-Y z''))"
proof -
  have lx: "lex_go (runes ''$header.X-Y z'') = (itemHeader, 11)"
    by (simp add: lex_go_def runes_def isIDChar_def)
  show ?thesis using header_token_shape [OF lx] lx by (simp add: runes_def)
qed

text \<open>
  Claim C3. When the loop of the lexer reads rune \<open>k\<close> in the Dot state, the \<open>k\<close>
  runes before it are exactly \<open>$header.\<close>. If rune \<open>k\<close> is an identifier character the
  next state is Header. If it is not, the lexer returns a Field token of length \<open>k\<close>, one
  short of the \<open>k + 1\<close> runes read. At the end of the input the lexer returns a Field
  token of length \<open>len(s) - 1\<close>, which is the text \<open>$header\<close> without the dot.
\<close>

theorem lex_dot_state:
  assumes "lex_state s k = Inr stateDot" and "k \<le> length s"
  shows "take k s = runes ''$header.'' \<and>
         (k < length s \<and> isIDChar (s ! k) \<longrightarrow> lex_state s (Suc k) = Inr stateHeader) \<and>
         (k < length s \<and> \<not> isIDChar (s ! k) \<longrightarrow> lex_go s = (itemField, int k)) \<and>
         (k = length s \<longrightarrow>
            lex_go s = (itemField, int (length s) - 1) \<and>
            take (length s - 1) s = runes ''$header'')"
proof -
  from lex_state_inv [OF assms(2,1)]
  have k8: "k = 8" and pre: "take 8 s = runes ''$header.''" by (simp_all add: lex_inv_def)
  have "k < length s \<Longrightarrow> isIDChar (s ! k) \<Longrightarrow> lex_state s (Suc k) = Inr stateHeader"
    using lex_state_Suc [OF _ assms(1)] by simp
  moreover have "k < length s \<Longrightarrow> \<not> isIDChar (s ! k) \<Longrightarrow> lex_go s = (itemField, int k)"
  proof -
    assume a: "k < length s" "\<not> isIDChar (s ! k)"
    then have "drop k s = s ! k # drop (Suc k) s" by (simp add: Cons_nth_drop_Suc)
    then show ?thesis using lex_go_from_state [OF assms(1)] a by simp
  qed
  moreover have "k = length s \<Longrightarrow> lex_go s = (itemField, int (length s) - 1)"
    using lex_go_from_state [OF assms(1)] by simp
  moreover have "k = length s \<Longrightarrow> take (length s - 1) s = runes ''$header''"
  proof -
    assume "k = length s"
    then have "s = runes ''$header.''" using pre k8 by simp
    then show ?thesis by (simp add: runes_def)
  qed
  ultimately show ?thesis using k8 pre by blast
qed

theorem lex_dot_state_witness:
  "lex_state (runes ''$header.'') 8 = Inr stateDot \<and>
   lex_go (runes ''$header.'') = (itemField, 7) \<and>
   lex_state (runes ''$header. x'') 8 = Inr stateDot \<and>
   lex_go (runes ''$header. x'') = (itemField, 8) \<and>
   lex_state (runes ''$header.ab'') 8 = Inr stateDot \<and>
   lex_state (runes ''$header.ab'') 9 = Inr stateHeader"
proof -
  have a: "lex_state (runes ''$header.'') 8 = Inr stateDot"
    by (simp add: lex_state_def runes_def isIDChar_def)
  have b: "lex_state (runes ''$header. x'') 8 = Inr stateDot"
    by (simp add: lex_state_def runes_def isIDChar_def)
  have c: "lex_state (runes ''$header.ab'') 8 = Inr stateDot"
    by (simp add: lex_state_def runes_def isIDChar_def)
  show ?thesis
    using lex_dot_state [OF a] lex_dot_state [OF b] lex_dot_state [OF c] a b c
    by (simp add: runes_def isIDChar_def)
qed

text \<open>
  Claim C4. A \<open>$\<close> of the format string that is not immediately followed by an
  identifier character (the last rune of the input included) lies in a token that the
  lexer classifies as Text.
\<close>

theorem literal_dollar_is_text:
  assumes "j < length s" and "s ! j = of_char CHR ''$''"
    and "Suc j < length s \<longrightarrow> \<not> isIDChar (s ! Suc j)"
  shows "item_at (tokens s) j = Some itemText"
  using assms
proof (induction s arbitrary: j rule: tokens.induct)
  case (1 s)
  from "1.prems"(1) have ne: "length s \<noteq> 0" "s \<noteq> []" by auto
  obtain ty n where ln: "lex_go s = (ty, n)" by (cases "lex_go s")
  have res: "lex_res s ty n" using lex_go_res [OF ne(2) ln] .
  then have b: "1 \<le> n" "n \<le> int (length s)" by (simp_all add: lex_res_def)
  have toks: "tokens s = (ty, take (nat n) s) # tokens (drop (nat n) s)"
    using ne ln by (simp add: tokens.simps [of s])
  have len: "length (take (nat n) s) = nat n" using b by simp
  show ?case
  proof (cases "j < nat n")
    case True
    have "ty = itemText"
      using token_with_literal_dollar [OF res True "1.prems"(2,3)] .
    then show ?thesis using toks len True by simp
  next
    case False
    let ?j = "j - nat n"
    have j1: "?j < length (drop (nat n) s)" using False "1.prems"(1) b by simp
    have j2: "drop (nat n) s ! ?j = of_char CHR ''$''" using False "1.prems"(1,2) b by simp
    have j3: "Suc ?j < length (drop (nat n) s) \<longrightarrow> \<not> isIDChar (drop (nat n) s ! Suc ?j)"
    proof
      assume a: "Suc ?j < length (drop (nat n) s)"
      then have "Suc j < length s" using False by simp
      moreover have "nat n + Suc ?j = Suc j" using False by simp
      ultimately show "\<not> isIDChar (drop (nat n) s ! Suc ?j)"
        using "1.prems"(3) b by simp
    qed
    from "1.IH" [OF ne(1) ln [symmetric] j1 j2 j3]
    show ?thesis using toks len False by simp
  qed
qed

theorem literal_dollar_is_text_witness:
  "runes ''a$ $b$'' ! 1 = of_char CHR ''$'' \<and>
   \<not> isIDChar (runes ''a$ $b$'' ! 2) \<and>
   item_at (tokens (runes ''a$ $b$'')) 1 = Some itemText \<and>
   item_at (tokens (runes ''a$ $b$'')) 3 = Some itemField \<and>
   item_at (tokens (runes ''a$ $b$'')) 5 = Some itemText"
proof -
  have toks: "tokens (runes ''a$ $b$'') =
      [(itemText, runes ''a''), (itemText, runes ''$ ''), (itemField, runes ''$b''),
       (itemText, runes ''$'')]"
    by (simp add: tokens.simps lex_go_def runes_def isIDChar_def)
  have at3: "item_at (tokens (runes ''a$ $b$'')) 3 = Some itemField"
    by (simp add: toks) (simp add: runes_def)
  have pre: "1 < length (runes ''a$ $b$'')" "runes ''a$ $b$'' ! 1 = of_char CHR ''$''"
    "\<not> isIDChar (runes ''a$ $b$'' ! 2)"
    "5 < length (runes ''a$ $b$'')" "runes ''a$ $b$'' ! 5 = of_char CHR ''$''"
    by (simp_all add: runes_def isIDChar_def)
  have nx: "Suc 1 < length (runes ''a$ $b$'') \<longrightarrow> \<not> isIDChar (runes ''a$ $b$'' ! Suc 1)"
    "Suc 5 < length (runes ''a$ $b$'') \<longrightarrow> \<not> isIDChar (runes ''a$ $b$'' ! Suc 5)"
    by (simp_all add: runes_def isIDChar_def)
  show ?thesis
    using literal_dollar_is_text [OF pre(1,2) nx(1)] literal_dollar_is_text [OF pre(4,5) nx(2)]
      pre at3
    by simp
qed

section \<open>The compiler and unknown fields\<close>

text \<open>
  Claim C1. If one of the tokens of the format string is a Field token whose text the
  table does not define, compilation returns an invalid-field error and no pattern. The
  error names the first such token \<open>v'\<close>: the tokens before it are all known.
\<close>

theorem parse_unknown_field_fails:
  assumes "(itemField, v) \<in> set (tokens format)" and "tbl v = None"
  shows "\<exists>pre v' post.
           tokens format = pre @ (itemField, v') # post \<and> tbl v' = None \<and>
           (\<forall>tok\<in>set pre. \<not> unknown_field tbl tok) \<and>
           parse format tbl = Some (Inl (InvalidField v'))"
proof -
  have "unknown_field tbl (itemField, v)" using assms(2) by simp
  then have "find (unknown_field tbl) (tokens format) \<noteq> None"
    using assms(1) by (auto simp: find_None_iff)
  then obtain tok where f: "find (unknown_field tbl) (tokens format) = Some tok" by blast
  from find_first_split [OF f] obtain pre post where
    sp: "tokens format = pre @ tok # post" "unknown_field tbl tok"
        "\<forall>y\<in>set pre. \<not> unknown_field tbl y" by blast
  obtain t v' where tok: "tok = (t, v')" by (cases tok)
  then have tv: "t = itemField" "tbl v' = None" using sp(2) by simp_all
  have "parse format tbl = Some (Inl (InvalidField v'))"
    using f tok by (simp add: parse_def parse_loop_tokens)
  then show ?thesis using sp tok tv by blast
qed

theorem parse_unknown_field_fails_witness:
  "(itemField, runes ''$zz'') \<in> set (tokens (runes ''$a $zz'')) \<and>
   [runes ''$a'' \<mapsto> text_field (runes ''aa'')] (runes ''$zz'') = None \<and>
   parse (runes ''$a $zz'') [runes ''$a'' \<mapsto> text_field (runes ''aa'')] =
     Some (Inl (InvalidField (runes ''$zz'')))"
proof -
  have toks: "tokens (runes ''$a $zz'') =
      [(itemField, runes ''$a''), (itemText, runes '' ''), (itemField, runes ''$zz'')]"
    by (simp add: tokens.simps lex_go_def runes_def isIDChar_def)
  have mem: "(itemField, runes ''$zz'') \<in> set (tokens (runes ''$a $zz''))"
    by (simp add: toks)
  have absent: "[runes ''$a'' \<mapsto> text_field (runes ''aa'')] (runes ''$zz'') = None"
    by (simp add: runes_def)
  have res: "parse (runes ''$a $zz'') [runes ''$a'' \<mapsto> text_field (runes ''aa'')] =
     Some (Inl (InvalidField (runes ''$zz'')))"
    using absent by (simp add: toks parse_def parse_loop_tokens)
  show ?thesis
    using parse_unknown_field_fails [of "runes ''$zz''" "runes ''$a $zz''"
        "[runes ''$a'' \<mapsto> text_field (runes ''aa'')]"] mem absent res
    by simp
qed

section \<open>The numeric formatter: decimal representation and padding\<close>

lemma digits_lsd_nonempty: "digits_lsd m \<noteq> []"
  by (subst digits_lsd.simps) simp

lemma digits_lsd_zero: "digits_lsd 0 = [of_char CHR ''0'']"
  by (subst digits_lsd.simps) simp

lemma digits_lsd_digits: "list_all is_digit (digits_lsd m)"
proof (induction m rule: digits_lsd.induct)
  case (1 m)
  show ?case
  proof (cases "m < 10")
    case True
    then show ?thesis by (subst digits_lsd.simps) (simp add: is_digit_def)
  next
    case False
    have "m mod 10 < 10" by simp
    then have "is_digit (of_char CHR ''0'' + int (m mod 10))"
      unfolding is_digit_def by simp
    then show ?thesis using False "1.IH" by (subst digits_lsd.simps) simp
  qed
qed

lemma dec_value_snoc: "dec_value (ds @ [c]) = 10 * dec_value ds + nat (c - of_char CHR ''0'')"
  by (simp add: dec_value_def)

lemma dec_value_digits: "dec_value (rev (digits_lsd m)) = m"
proof (induction m rule: digits_lsd.induct)
  case (1 m)
  show ?case
  proof (cases "m < 10")
    case True
    then show ?thesis by (subst digits_lsd.simps) (simp add: dec_value_def)
  next
    case False
    then have "dec_value (rev (digits_lsd m)) = 10 * (m div 10) + m mod 10"
      using "1.IH" by (subst digits_lsd.simps) (simp add: dec_value_snoc)
    then show ?thesis by simp
  qed
qed

lemma digits_lsd_leading: "last (digits_lsd m) = of_char CHR ''0'' \<Longrightarrow> m = 0"
proof (induction m rule: digits_lsd.induct)
  case (1 m)
  show ?case
  proof (cases "m < 10")
    case True
    then show ?thesis using "1.prems" by (subst (asm) digits_lsd.simps) simp
  next
    case False
    then have "last (digits_lsd (m div 10)) = of_char CHR ''0''"
      using "1.prems" digits_lsd_nonempty [of "m div 10"]
      by (subst (asm) digits_lsd.simps) simp
    then have "m div 10 = 0" using "1.IH" False by simp
    then show ?thesis using False by simp
  qed
qed

lemma digits_lsd_length: "m < 10 ^ k \<Longrightarrow> 0 < k \<Longrightarrow> length (digits_lsd m) \<le> k"
proof (induction m arbitrary: k rule: digits_lsd.induct)
  case (1 m)
  show ?case
  proof (cases "m < 10")
    case True
    then show ?thesis using "1.prems" by (subst digits_lsd.simps) simp
  next
    case False
    obtain j where k: "k = Suc j" using "1.prems"(2) by (cases k) auto
    have "j \<noteq> 0" using False "1.prems"(1) k by (cases j) auto
    moreover have "m div 10 < 10 ^ j" using "1.prems"(1) k
      by (simp add: less_mult_imp_div_less mult.commute)
    ultimately have "length (digits_lsd (m div 10)) \<le> j" using "1.IH" [OF False] by simp
    then show ?thesis using False k by (subst digits_lsd.simps) simp
  qed
qed

lemma atoi_append: "atoi b i pad = b @ atoi [] i pad"
  by (simp add: atoi_def WriteString_def Let_def)

lemma replicate_unfold: "0 < n \<Longrightarrow> replicate n x = x # replicate (n - 1) x"
  by (cases n) simp_all

lemma atoi_tests:
  "atoi [] 0 0 = runes ''0''"
  "atoi [] 1 0 = runes ''1''"
  "atoi [] (- 1) 0 = runes ''-1''"
  "atoi [] 12345 0 = runes ''12345''"
  "atoi [] (- 12345) 0 = runes ''-12345''"
  "atoi [] 9223372036854775807 0 = runes ''9223372036854775807''"
  "atoi [] (- 9223372036854775807) 0 = runes ''-9223372036854775807''"
  "atoi [] 0 5 = runes ''00000''"
  "atoi [] 1 5 = runes ''00001''"
  "atoi [] (- 1) 5 = runes ''-00001''"
  "atoi [] 12345 5 = runes ''12345''"
  "atoi [] (- 12345) 5 = runes ''-12345''"
  "atoi [] 9223372036854775807 5 = runes ''9223372036854775807''"
  "atoi [] (- 9223372036854775807) 5 = runes ''-9223372036854775807''"
  by (simp_all add: atoi_def WriteString_def Let_def digits_lsd.simps runes_def
      replicate_unfold)

lemma atoi_min_int64:
  "atoi [] (- 9223372036854775808) 0 = runes ''-9223372036854775808''"
  by (simp add: atoi_def WriteString_def Let_def digits_lsd.simps runes_def)

text \<open>
  Claim C6. For every value and every width, the formatter appends an optional \<open>-\<close> (for a
  negative value only), then zeros, then the decimal digits of the magnitude: digits that
  denote the magnitude and have no leading zero, the value 0 being the single digit \<open>0\<close>.
  Zeros and digits together are as many as the larger of the width and the number of
  digits, so the sign does not count and nothing is cut off. For the value 0 the output is
  \<open>0\<close> repeated as often as the width says, and once at least. The five outputs the
  specification lists hold, the most negative 64-bit integer among them.
\<close>

theorem atoi_decimal:
  "(\<exists>zeros ds.
      atoi b i pad = b @ (if i < 0 then runes ''-'' else []) @ zeros @ ds \<and>
      zeros = replicate (length zeros) (of_char CHR ''0'') \<and>
      ds \<noteq> [] \<and> list_all is_digit ds \<and> dec_value ds = nat \<bar>i\<bar> \<and>
      (hd ds = of_char CHR ''0'' \<longrightarrow> ds = [of_char CHR ''0''] \<and> i = 0) \<and>
      length (zeros @ ds) = max (nat pad) (length ds)) \<and>
   atoi b 0 pad = b @ replicate (max (nat pad) 1) (of_char CHR ''0'') \<and>
   atoi [] 0 0 = runes ''0'' \<and> atoi [] (- 1) 0 = runes ''-1'' \<and>
   atoi [] 0 5 = runes ''00000'' \<and> atoi [] (- 1) 5 = runes ''-00001'' \<and>
   atoi [] (- 9223372036854775808) 0 = runes ''-9223372036854775808''"
proof -
  let ?ds = "rev (digits_lsd (nat \<bar>i\<bar>))"
  let ?zeros = "replicate (nat pad - length ?ds) (of_char CHR ''0'' :: rune)"
  have 1: "atoi b i pad = b @ (if i < 0 then runes ''-'' else []) @ ?zeros @ ?ds"
    by (simp add: atoi_def WriteString_def Let_def)
  have 2: "?zeros = replicate (length ?zeros) (of_char CHR ''0'')" by simp
  have 3: "?ds \<noteq> []" using digits_lsd_nonempty by simp
  have 4: "list_all is_digit ?ds" using digits_lsd_digits [of "nat \<bar>i\<bar>"] by simp
  have 5: "dec_value ?ds = nat \<bar>i\<bar>" by (rule dec_value_digits)
  have 6: "hd ?ds = of_char CHR ''0'' \<longrightarrow> ?ds = [of_char CHR ''0''] \<and> i = 0"
  proof
    assume "hd ?ds = of_char CHR ''0''"
    then have "last (digits_lsd (nat \<bar>i\<bar>)) = of_char CHR ''0''"
      using digits_lsd_nonempty [of "nat \<bar>i\<bar>"] by (simp add: hd_rev)
    then have z: "nat \<bar>i\<bar> = 0" by (rule digits_lsd_leading)
    then show "?ds = [of_char CHR ''0''] \<and> i = 0" by (simp add: digits_lsd_zero)
  qed
  have 7: "length (?zeros @ ?ds) = max (nat pad) (length ?ds)" by (simp add: max_def)
  have "\<exists>zeros ds.
      atoi b i pad = b @ (if i < 0 then runes ''-'' else []) @ zeros @ ds \<and>
      zeros = replicate (length zeros) (of_char CHR ''0'') \<and>
      ds \<noteq> [] \<and> list_all is_digit ds \<and> dec_value ds = nat \<bar>i\<bar> \<and>
      (hd ds = of_char CHR ''0'' \<longrightarrow> ds = [of_char CHR ''0''] \<and> i = 0) \<and>
      length (zeros @ ds) = max (nat pad) (length ds)"
    using 1 2 3 4 5 6 7 by blast
  moreover have "atoi b 0 pad = b @ replicate (max (nat pad) 1) (of_char CHR ''0'')"
  proof (cases "nat pad")
    case 0
    then show ?thesis by (simp add: atoi_def WriteString_def Let_def digits_lsd_zero)
  next
    case (Suc n)
    then have "max (nat pad) 1 = Suc n" by simp
    then show ?thesis
      using Suc
      by (simp add: atoi_def WriteString_def Let_def digits_lsd_zero replicate_append_same)
  qed
  ultimately show ?thesis using atoi_tests(1,3,8,10) atoi_min_int64 by simp
qed

theorem atoi_decimal_witness:
  "atoi (runes ''x'') (- 12345) 7 = runes ''x-0012345'' \<and>
   atoi (runes ''x'') 12345 3 = runes ''x12345'' \<and>
   atoi (runes ''x'') 0 2 = runes ''x00'' \<and>
   dec_value (runes ''0012345'') = 12345"
proof -
  have a: "atoi (runes ''x'') (- 12345) 7 = runes ''x-0012345''"
    "atoi (runes ''x'') 12345 3 = runes ''x12345''"
    "atoi (runes ''x'') 0 2 = runes ''x00''"
    by (simp_all add: atoi_def WriteString_def Let_def digits_lsd.simps runes_def
        replicate_unfold)
  have d: "dec_value (runes ''0012345'') = 12345"
    by (simp add: dec_value_def runes_def)
  show ?thesis
    using atoi_decimal [of "runes ''x''" "- 12345" 7] atoi_decimal [of "runes ''x''" 0 2] a d
    by simp
qed

section \<open>Values for the examples\<close>

text \<open>The zero \<^verbatim>\<open>time.Time{}\<close>, as \<^verbatim>\<open>TestParse\<close> passes it.\<close>

definition zero_time :: time where
  "zero_time = \<lparr>Year = 1, Month = 1, Day = 1, Hour = 0, Minute = 0, Second = 0,
     Nanosecond = 0, UnixNano = - 6795364578871345152\<rparr>"

text \<open>
  The values of \<^verbatim>\<open>TestLog\<close>: the two timestamps, the request and the response, and a
  stand-in for the two library calls that is right at these values.
\<close>

definition test_t1 :: time where
  "test_t1 = \<lparr>Year = 2016, Month = 1, Day = 1, Hour = 0, Minute = 0, Second = 0,
     Nanosecond = 0, UnixNano = 1451606400000000000\<rparr>"

definition test_t2 :: time where
  "test_t2 = \<lparr>Year = 2016, Month = 1, Day = 1, Hour = 0, Minute = 0, Second = 0,
     Nanosecond = 123456789, UnixNano = 1451606400123456789\<rparr>"

definition test_req :: request where
  "test_req = \<lparr>Method = runes ''GET'', RequestURI = runes ''/?q=x'', Proto = runes ''HTTP/1.1'',
     Host = runes ''foo.com'', RemoteAddr = runes ''2.2.2.2:666'',
     URL = Some \<lparr>RawQuery = runes ''?q=x''\<rparr>,
     HeaderGet = (\<lambda>name. if name = runes ''X-Forwarded-For'' then runes ''3.3.3.3'' else [])\<rparr>"

definition test_resp :: response where
  "test_resp = \<lparr>StatusCode = 200, ContentLength = 1234,
     Request = Some (test_req\<lparr>RemoteAddr := runes ''5.6.7.8:1234''\<rparr>)\<rparr>"

definition test_lib :: golib where
  "test_lib = \<lparr>Sub = (\<lambda>t u. UnixNano t - UnixNano u),
     SplitHostPort = (\<lambda>a.
       if a = runes ''2.2.2.2:666'' then (runes ''2.2.2.2'', runes ''666'', False)
       else if a = runes ''5.6.7.8:1234'' then (runes ''5.6.7.8'', runes ''1234'', False)
       else ([], [], True))\<rparr>"

section \<open>The executor: the line terminator\<close>

lemma parse_empty: "parse [] tbl = Some (Inr [])"
  by (simp add: parse_def parse_loop_Nil)

text \<open>
  Claim C2, as stated, for every buffer: a buffer that receives zero bytes from the
  renderers gets no line terminator. The executor tests the length of the whole buffer,
  not what the renderers wrote. With the pattern compiled from the empty format string and
  a buffer that already holds \<open>x\<close>, the renderers write nothing and the executor
  appends a line terminator all the same.
\<close>

theorem pattern_write_terminator_counterexample:
  "parse [] Map.empty = Some (Inr []) \<and>
   run_fields [] (runes ''x'') zero_time zero_time None None = Inr (runes ''x'') \<and>
   pattern_write [] (runes ''x'') zero_time zero_time None None =
     Inr (runes ''x'' @ [of_char CHR 0x0A]) \<and>
   pattern_write [] (runes ''x'') zero_time zero_time None None \<noteq> Inr (runes ''x'')"
  by (simp add: parse_empty pattern_write_def WriteRune_def runes_def)

text \<open>
  Claim C2, amended. For every pattern and every buffer, after the executor has invoked
  all renderers in sequence (none of them panicking) and the buffer holds \<open>b'\<close>: if
  \<open>b'\<close> is empty, nothing is appended; otherwise exactly one line terminator is appended
  at the end. For a buffer that was empty before the call, this is the claim as stated: if
  it received zero bytes, no line terminator is appended. The pattern compiled from the
  empty format string is the empty pattern and appends nothing to an empty buffer.
\<close>

theorem pattern_write_terminator:
  assumes "run_fields p b t1 t2 w r = Inr b'"
  shows "pattern_write p b t1 t2 w r =
           Inr (if length b' = 0 then b' else b' @ [of_char CHR 0x0A]) \<and>
         (b = [] \<and> b' = b \<longrightarrow> pattern_write p b t1 t2 w r = Inr []) \<and>
         parse [] tbl = Some (Inr []) \<and>
         pattern_write [] [] t1 t2 w r = Inr []"
  using assms by (auto simp: pattern_write_def WriteRune_def parse_empty)

theorem pattern_write_terminator_witness:
  "run_fields [text_field (runes ''ab''), text_field []] [] zero_time zero_time None None =
     Inr (runes ''ab'') \<and>
   pattern_write [text_field (runes ''ab''), text_field []] [] zero_time zero_time None None =
     Inr (runes ''ab'' @ [of_char CHR 0x0A]) \<and>
   run_fields [text_field []] [] zero_time zero_time None None = Inr [] \<and>
   pattern_write [text_field []] [] zero_time zero_time None None = Inr []"
proof -
  have a: "run_fields [text_field (runes ''ab''), text_field []] [] zero_time zero_time None None =
     Inr (runes ''ab'')"
    by (simp add: text_field_def WriteString_def)
  have b: "run_fields [text_field []] [] zero_time zero_time None None = Inr []"
    by (simp add: text_field_def WriteString_def)
  show ?thesis
    using pattern_write_terminator [OF a] pattern_write_terminator [OF b] a b
    by (simp add: runes_def)
qed

section \<open>The renderers only append\<close>

text \<open>
  \<open>appends f\<close>: the renderer \<open>f\<close> only appends to the buffer, and what it appends does
  not depend on what the buffer holds. The renderers of the table \<open>fields\<close> and the
  renderers the compiler makes for text and header tokens are of this kind.
\<close>

definition appends :: "field \<Rightarrow> bool" where
  "appends f \<longleftrightarrow>
     (\<forall>b t1 t2 w r. f b t1 t2 w r =
        (case f [] t1 t2 w r of Inl e \<Rightarrow> Inl e | Inr out \<Rightarrow> Inr (b @ out)))"

lemma appends_text_header: "appends (text_field s)" "appends (header_field name)"
  by (simp_all add: appends_def text_field_def header_field_def WriteString_def
      split: option.splits)

lemma appends_request_fields:
  "appends field_remote_addr" "appends (field_remote_host L)" "appends (field_remote_port L)"
  "appends field_request" "appends field_request_args" "appends field_request_host"
  "appends field_request_method" "appends field_request_uri" "appends field_request_proto"
  "appends field_upstream_addr" "appends (field_upstream_host L)"
  "appends (field_upstream_port L)"
  by (simp_all add: appends_def field_remote_addr_def field_remote_host_def
      field_remote_port_def field_request_def field_request_args_def field_request_host_def
      field_request_method_def field_request_uri_def field_request_proto_def
      field_upstream_addr_def field_upstream_host_def field_upstream_port_def
      WriteString_def WriteRune_def Let_def split: option.splits prod.splits)

lemma appends_response_fields:
  "appends field_response_body_size" "appends field_response_status"
  "appends (field_response_time_ms L)" "appends (field_response_time_us L)"
  "appends (field_response_time_ns L)"
  by (simp_all add: appends_def field_response_body_size_def field_response_status_def
      field_response_time_ms_def field_response_time_us_def field_response_time_ns_def
      atoi_def WriteString_def WriteRune_def Let_def split: option.splits)

lemma appends_time_fields:
  "appends field_time_unix_ms" "appends field_time_unix_us" "appends field_time_unix_ns"
  "appends field_time_common" "appends field_time_rfc3339" "appends field_time_rfc3339_ms"
  "appends field_time_rfc3339_us" "appends field_time_rfc3339_ns"
  by (simp_all add: appends_def field_time_unix_ms_def field_time_unix_us_def
      field_time_unix_ns_def field_time_common_def field_time_rfc3339_def
      field_time_rfc3339_ms_def field_time_rfc3339_us_def field_time_rfc3339_ns_def
      atoi_def WriteString_def WriteRune_def Let_def)

lemma fields_appends:
  assumes "fields L k = Some f"
  shows "appends f"
proof -
  have "(k, f) \<in> set
     [(runes ''$remote_addr'', field_remote_addr),
      (runes ''$remote_host'', field_remote_host L),
      (runes ''$remote_port'', field_remote_port L),
      (runes ''$request'', field_request),
      (runes ''$request_args'', field_request_args),
      (runes ''$request_host'', field_request_host),
      (runes ''$request_method'', field_request_method),
      (runes ''$request_uri'', field_request_uri),
      (runes ''$request_proto'', field_request_proto),
      (runes ''$response_body_size'', field_response_body_size),
      (runes ''$response_status'', field_response_status),
      (runes ''$response_time_ms'', field_response_time_ms L),
      (runes ''$response_time_us'', field_response_time_us L),
      (runes ''$response_time_ns'', field_response_time_ns L),
      (runes ''$time_unix_ms'', field_time_unix_ms),
      (runes ''$time_unix_us'', field_time_unix_us),
      (runes ''$time_unix_ns'', field_time_unix_ns),
      (runes ''$time_common'', field_time_common),
      (runes ''$time_rfc3339'', field_time_rfc3339),
      (runes ''$time_rfc3339_ms'', field_time_rfc3339_ms),
      (runes ''$time_rfc3339_us'', field_time_rfc3339_us),
      (runes ''$time_rfc3339_ns'', field_time_rfc3339_ns),
      (runes ''$upstream_addr'', field_upstream_addr),
      (runes ''$upstream_host'', field_upstream_host L),
      (runes ''$upstream_port'', field_upstream_port L)]"
    using assms unfolding fields_def by (rule map_of_SomeD)
  then have "f \<in> {field_remote_addr, field_remote_host L, field_remote_port L, field_request,
      field_request_args, field_request_host, field_request_method, field_request_uri,
      field_request_proto, field_response_body_size, field_response_status,
      field_response_time_ms L, field_response_time_us L, field_response_time_ns L,
      field_time_unix_ms, field_time_unix_us, field_time_unix_ns, field_time_common,
      field_time_rfc3339, field_time_rfc3339_ms, field_time_rfc3339_us, field_time_rfc3339_ns,
      field_upstream_addr, field_upstream_host L, field_upstream_port L}"
    by (simp only: set_simps insert_iff empty_iff prod.inject) blast
  then show ?thesis
    using appends_request_fields appends_response_fields appends_time_fields
    by (simp only: insert_iff empty_iff) blast
qed

lemma run_fields_appends:
  "list_all appends p \<Longrightarrow>
   run_fields p b t1 t2 w r =
     (case run_fields p [] t1 t2 w r of Inl e \<Rightarrow> Inl e | Inr out \<Rightarrow> Inr (b @ out))"
proof (induction p arbitrary: b)
  case Nil
  then show ?case by simp
next
  case (Cons f p)
  then have f: "appends f" and p: "list_all appends p" by simp_all
  have fb: "f b t1 t2 w r = (case f [] t1 t2 w r of Inl e \<Rightarrow> Inl e | Inr out \<Rightarrow> Inr (b @ out))"
    using f unfolding appends_def by blast
  show ?case
  proof (cases "f [] t1 t2 w r")
    case (Inl e)
    then show ?thesis using fb by simp
  next
    case (Inr o1)
    have 1: "run_fields p (b @ o1) t1 t2 w r =
       (case run_fields p [] t1 t2 w r of Inl e \<Rightarrow> Inl e | Inr out \<Rightarrow> Inr ((b @ o1) @ out))"
      using Cons.IH [OF p] .
    have 2: "run_fields p o1 t1 t2 w r =
       (case run_fields p [] t1 t2 w r of Inl e \<Rightarrow> Inl e | Inr out \<Rightarrow> Inr (o1 @ out))"
      using Cons.IH [OF p] .
    show ?thesis using fb Inr 1 2 by (simp split: sum.splits)
  qed
qed

lemma compiled_appends:
  assumes "\<forall>k f. tbl k = Some f \<longrightarrow> appends f" and "parse format tbl = Some (Inr p)"
  shows "list_all appends p"
proof -
  have none: "find (unknown_field tbl) (tokens format) = None"
    and p: "p = map (compile_token tbl) (tokens format)"
    using assms(2) by (auto simp: parse_def parse_loop_tokens split: option.splits)
  have "appends (compile_token tbl tok)" if "tok \<in> set (tokens format)" for tok
  proof -
    have known: "\<not> unknown_field tbl tok"
      using none that unfolding find_None_iff by blast
    obtain t v where tok: "tok = (t, v)" by (cases tok)
    show ?thesis
    proof (cases t)
      case itemField
      then obtain f where "tbl v = Some f" using known tok by auto
      then show ?thesis using assms(1) itemField tok by auto
    qed (simp_all add: tok appends_text_header)
  qed
  then show ?thesis unfolding p by (simp add: list_all_iff)
qed

text \<open>
  Hence a pattern compiled against the table \<open>fields\<close> writes the same bytes after
  whatever the buffer holds.
\<close>

lemma compiled_pattern_frame:
  assumes "parse format (fields L) = Some (Inr p)"
  shows "run_fields p b t1 t2 w r =
           (case run_fields p [] t1 t2 w r of
              Inl e \<Rightarrow> Inl e
            | Inr out \<Rightarrow> Inr (b @ out))"
proof -
  have "\<forall>k f. fields L k = Some f \<longrightarrow> appends f" using fields_appends by blast
  from compiled_appends [OF this assms] show ?thesis by (rule run_fields_appends)
qed

section \<open>The renderers of the response time and of the remote address\<close>

lemma atoi_length:
  assumes "\<bar>x\<bar> < 10 ^ k" and "0 < k"
  shows "length (atoi [] x (int k)) = k + (if x < 0 then 1 else 0)"
proof -
  have "nat \<bar>x\<bar> < 10 ^ k" using assms(1) by (simp add: nat_less_iff)
  then have "length (digits_lsd (nat \<bar>x\<bar>)) \<le> k" using assms(2) by (rule digits_lsd_length)
  then show ?thesis by (simp add: atoi_def WriteString_def Let_def runes_def)
qed

lemma abs_sdiv_int: "\<bar>a sdiv b\<bar> = \<bar>a\<bar> div \<bar>b\<bar>" for a b :: int
  by (cases "a = 0"; cases "b = 0")
    (simp_all add: signed_divide_int_def abs_mult abs_sgn_eq pos_imp_zdiv_nonneg_iff)

lemma abs_smod_second: "\<bar>d smod 1000000000\<bar> < (1000000000 :: int)"
  using smod_int_range [of 1000000000 d] by auto

lemma frac_bounds:
  "\<bar>(d smod 1000000000) sdiv 1000000\<bar> < (10 :: int) ^ 3"
  "\<bar>(d smod 1000000000) sdiv 1000\<bar> < (10 :: int) ^ 6"
  "\<bar>(d smod 1000000000) sdiv 1\<bar> < (10 :: int) ^ 9"
  using abs_smod_second [of d] by (simp_all add: abs_sdiv_int) 

lemma fields_response_time:
  "fields L (runes ''$response_time_ms'') = Some (field_response_time_ms L)"
  "fields L (runes ''$response_time_us'') = Some (field_response_time_us L)"
  "fields L (runes ''$response_time_ns'') = Some (field_response_time_ns L)"
  by (simp_all add: fields_def runes_def)

lemma fields_remote:
  "fields L (runes ''$remote_host'') = Some (field_remote_host L)"
  "fields L (runes ''$remote_port'') = Some (field_remote_port L)"
  by (simp_all add: fields_def runes_def)

text \<open>
  Claim C5. With \<open>d\<close> the nanoseconds of \<^verbatim>\<open>t2.Sub(t1)\<close>, the renderers
  \<open>$response_time_ms\<close>, \<open>$response_time_us\<close> and \<open>$response_time_ns\<close> append the whole
  seconds of \<open>d\<close> (the quotient by \<open>10\<^sup>9\<close>, truncated towards zero), a dot, and the
  remainder of \<open>d\<close> converted to milliseconds, microseconds or nanoseconds, written with
  exactly 3, 6 or 9 digits (after a \<open>-\<close> of its own when it is negative, which needs
  \<open>d < 0\<close>). For \<open>d = 123456789\<close> they append \<open>0.123\<close>, \<open>0.123456\<close> and
  \<open>0.123456789\<close>.
\<close>

theorem response_time_fields:
  assumes "Sub L t2 t1 = d"
  shows "fields L (runes ''$response_time_ms'') = Some (field_response_time_ms L) \<and>
         fields L (runes ''$response_time_us'') = Some (field_response_time_us L) \<and>
         fields L (runes ''$response_time_ns'') = Some (field_response_time_ns L) \<and>
         field_response_time_ms L b t1 t2 w r =
           Inr (b @ atoi [] (d sdiv 1000000000) 0 @ runes ''.'' @
                atoi [] ((d smod 1000000000) sdiv 1000000) 3) \<and>
         field_response_time_us L b t1 t2 w r =
           Inr (b @ atoi [] (d sdiv 1000000000) 0 @ runes ''.'' @
                atoi [] ((d smod 1000000000) sdiv 1000) 6) \<and>
         field_response_time_ns L b t1 t2 w r =
           Inr (b @ atoi [] (d sdiv 1000000000) 0 @ runes ''.'' @
                atoi [] (d smod 1000000000) 9) \<and>
         length (atoi [] ((d smod 1000000000) sdiv 1000000) 3) =
           3 + (if (d smod 1000000000) sdiv 1000000 < 0 then 1 else 0) \<and>
         length (atoi [] ((d smod 1000000000) sdiv 1000) 6) =
           6 + (if (d smod 1000000000) sdiv 1000 < 0 then 1 else 0) \<and>
         length (atoi [] (d smod 1000000000) 9) =
           9 + (if d smod 1000000000 < 0 then 1 else 0) \<and>
         (d = 123456789 \<longrightarrow>
            field_response_time_ms L b t1 t2 w r = Inr (b @ runes ''0.123'') \<and>
            field_response_time_us L b t1 t2 w r = Inr (b @ runes ''0.123456'') \<and>
            field_response_time_ns L b t1 t2 w r = Inr (b @ runes ''0.123456789''))"
proof -
  have ms: "field_response_time_ms L b t1 t2 w r =
           Inr (b @ atoi [] (d sdiv 1000000000) 0 @ runes ''.'' @
                atoi [] ((d smod 1000000000) sdiv 1000000) 3)"
    by (simp add: field_response_time_ms_def assms atoi_def WriteString_def WriteRune_def
        Let_def time_Second_def time_Millisecond_def runes_def)
  have us: "field_response_time_us L b t1 t2 w r =
           Inr (b @ atoi [] (d sdiv 1000000000) 0 @ runes ''.'' @
                atoi [] ((d smod 1000000000) sdiv 1000) 6)"
    by (simp add: field_response_time_us_def assms atoi_def WriteString_def WriteRune_def
        Let_def time_Second_def time_Microsecond_def runes_def)
  have ns: "field_response_time_ns L b t1 t2 w r =
           Inr (b @ atoi [] (d sdiv 1000000000) 0 @ runes ''.'' @
                atoi [] (d smod 1000000000) 9)"
    by (simp add: field_response_time_ns_def assms atoi_def WriteString_def WriteRune_def
        Let_def time_Second_def time_Nanosecond_def runes_def)
  have l3: "length (atoi [] ((d smod 1000000000) sdiv 1000000) 3) =
           3 + (if (d smod 1000000000) sdiv 1000000 < 0 then 1 else 0)"
    using atoi_length [OF frac_bounds(1) [of d]] by simp
  have l6: "length (atoi [] ((d smod 1000000000) sdiv 1000) 6) =
           6 + (if (d smod 1000000000) sdiv 1000 < 0 then 1 else 0)"
    using atoi_length [OF frac_bounds(2) [of d]] by simp
  have l9: "length (atoi [] (d smod 1000000000) 9) =
           9 + (if d smod 1000000000 < 0 then 1 else 0)"
    using atoi_length [OF frac_bounds(3) [of d]] by simp
  have ex: "atoi [] 0 0 = runes ''0''" "atoi [] 123 3 = runes ''123''"
    "atoi [] 123456 6 = runes ''123456''" "atoi [] 123456789 9 = runes ''123456789''"
    by (simp_all add: atoi_def WriteString_def Let_def digits_lsd.simps runes_def)
  have c: "d = 123456789 \<longrightarrow>
            field_response_time_ms L b t1 t2 w r = Inr (b @ runes ''0.123'') \<and>
            field_response_time_us L b t1 t2 w r = Inr (b @ runes ''0.123456'') \<and>
            field_response_time_ns L b t1 t2 w r = Inr (b @ runes ''0.123456789'')"
  proof
    assume d: "d = 123456789"
    have "d sdiv 1000000000 = 0" "(d smod 1000000000) sdiv 1000000 = 123"
      "(d smod 1000000000) sdiv 1000 = 123456" "d smod 1000000000 = 123456789"
      unfolding d by simp_all
    then show "field_response_time_ms L b t1 t2 w r = Inr (b @ runes ''0.123'') \<and>
            field_response_time_us L b t1 t2 w r = Inr (b @ runes ''0.123456'') \<and>
            field_response_time_ns L b t1 t2 w r = Inr (b @ runes ''0.123456789'')"
      unfolding ms us ns by (simp add: ex) (simp add: runes_def)
  qed
  show ?thesis using fields_response_time [of L] ms us ns l3 l6 l9 c by simp
qed

theorem response_time_fields_witness:
  "Sub test_lib test_t2 test_t1 = 123456789 \<and>
   field_response_time_ms test_lib [] test_t1 test_t2 (Some test_resp) (Some test_req) =
     Inr (runes ''0.123'') \<and>
   field_response_time_us test_lib [] test_t1 test_t2 (Some test_resp) (Some test_req) =
     Inr (runes ''0.123456'') \<and>
   field_response_time_ns test_lib [] test_t1 test_t2 (Some test_resp) (Some test_req) =
     Inr (runes ''0.123456789'')"
proof -
  have d: "Sub test_lib test_t2 test_t1 = 123456789"
    by (simp add: test_lib_def test_t1_def test_t2_def)
  show ?thesis
    using response_time_fields [OF d, of "[]" "Some test_resp" "Some test_req"] d
    by (simp add: atoi_def WriteString_def Let_def digits_lsd.simps runes_def)
qed

text \<open>
  Claim C8. For a request \<open>rq\<close>, let \<^verbatim>\<open>net.SplitHostPort\<close> return \<open>host\<close>, \<open>port\<close> and
  an error (\<open>err\<close>) for the remote address, where host and port are empty when there is
  an error, as the library documents. The renderers \<open>$remote_host\<close> and \<open>$remote_port\<close>
  do not fail: they append nothing when the split fails, and the host part and the port
  part when it succeeds.
\<close>

theorem remote_host_port_fields:
  assumes "SplitHostPort L (RemoteAddr rq) = (host, port, err)"
    and "err \<longrightarrow> host = [] \<and> port = []"
  shows "fields L (runes ''$remote_host'') = Some (field_remote_host L) \<and>
         fields L (runes ''$remote_port'') = Some (field_remote_port L) \<and>
         field_remote_host L b t1 t2 w (Some rq) = Inr (b @ (if err then [] else host)) \<and>
         field_remote_port L b t1 t2 w (Some rq) = Inr (b @ (if err then [] else port))"
  using assms fields_remote [of L]
  by (simp add: field_remote_host_def field_remote_port_def WriteString_def)

theorem remote_host_port_fields_witness:
  "SplitHostPort test_lib (RemoteAddr test_req) = (runes ''2.2.2.2'', runes ''666'', False) \<and>
   field_remote_host test_lib [] test_t1 test_t2 None (Some test_req) = Inr (runes ''2.2.2.2'') \<and>
   field_remote_port test_lib [] test_t1 test_t2 None (Some test_req) = Inr (runes ''666'') \<and>
   SplitHostPort test_lib (RemoteAddr (test_req\<lparr>RemoteAddr := runes ''nocolon''\<rparr>)) = ([], [], True) \<and>
   field_remote_host test_lib (runes ''x'') test_t1 test_t2 None
     (Some (test_req\<lparr>RemoteAddr := runes ''nocolon''\<rparr>)) = Inr (runes ''x'') \<and>
   field_remote_port test_lib (runes ''x'') test_t1 test_t2 None
     (Some (test_req\<lparr>RemoteAddr := runes ''nocolon''\<rparr>)) = Inr (runes ''x'')"
proof -
  have a: "SplitHostPort test_lib (RemoteAddr test_req) = (runes ''2.2.2.2'', runes ''666'', False)"
    by (simp add: test_lib_def test_req_def)
  have b: "SplitHostPort test_lib (RemoteAddr (test_req\<lparr>RemoteAddr := runes ''nocolon''\<rparr>)) =
      ([], [], True)"
    by (simp add: test_lib_def test_req_def runes_def)
  show ?thesis
    using remote_host_port_fields [OF a, of "[]" test_t1 test_t2 None]
      remote_host_port_fields [OF b, of "runes ''x''" test_t1 test_t2 None] a b
    by simp
qed

end
